theory Spec2Isabelle
  imports Main
begin

section \<open>Data model\<close>

text \<open>
  The program (\<^verbatim>\<open>src/seller_sync.py\<close>) reads a workbook of per-merchant data with
  pandas, fills an openpyxl template once per merchant, saves one file per merchant and
  mails the files through Outlook.

  A spreadsheet value is empty (\<^verbatim>\<open>None\<close>), an integer or a text. A text is a
  string of code points below 256, one \<open>char\<close> each; higher code points, floating
  point values, dates and formulas are outside the model.
\<close>

datatype cell = CNone | CInt int | CStr string

text \<open>
  A pandas \<^verbatim>\<open>DataFrame\<close>: the column labels and the rows in positional order. Every row
  has one value per column, and the labels of one frame are taken to be distinct texts
  (\<^verbatim>\<open>pd.read_excel\<close> delivers them so).
\<close>

record dataframe =
  columns :: "cell list"
  rows :: "cell list list"

text \<open>
  An openpyxl worksheet is a grid of values addressed by (row, column), both counted
  from 1; an absent cell reads as \<^verbatim>\<open>None\<close>. A workbook is a dictionary from sheet names
  to worksheets.
\<close>

type_synonym worksheet = "nat \<times> nat \<Rightarrow> cell"

type_synonym workbook = "string \<rightharpoonup> worksheet"

text \<open>The exceptions the modelled code can raise.\<close>

datatype error =
  KeyError | IndexError | ValueError | TypeError | AttributeError
  | AssertionError | FileNotFoundError

section \<open>Table access\<close>

text \<open>
  \<^verbatim>\<open>df[label]\<close>: the values of the column with that label, top to bottom, or
  \<^verbatim>\<open>KeyError\<close> when no column has the label.
\<close>

fun index_of :: "'a \<Rightarrow> 'a list \<Rightarrow> nat option" where
  "index_of x [] = None"
| "index_of x (y # ys) =
     (if x = y then Some 0 else map_option Suc (index_of x ys))"

definition row_value :: "nat \<Rightarrow> cell list \<Rightarrow> cell" where
  "row_value i r = (if i < length r then r ! i else CNone)"

definition df_col :: "dataframe \<Rightarrow> cell \<Rightarrow> error + cell list" where
  "df_col df label =
     (case index_of label (columns df) of
        None \<Rightarrow> Inl KeyError
      | Some i \<Rightarrow> Inr (map (row_value i) (rows df)))"

section \<open>Contact extractor\<close>

text \<open>
  \<^verbatim>\<open>
  CONTACTS_SHEET = "CONTATOS"

  def get_contacts(self) -> pd.DataFrame:
      contacts_df = self.dfs[self.CONTACTS_SHEET]
      return pd.DataFrame(
          contacts_df.values[1:],
          columns=contacts_df.iloc[0]
      )
  \<close>
  \<^verbatim>\<open>self.dfs[...]\<close> raises \<^verbatim>\<open>KeyError\<close> for a missing sheet. The slice
  \<^verbatim>\<open>values[1:]\<close> never raises; \<^verbatim>\<open>iloc[0]\<close> raises \<^verbatim>\<open>IndexError\<close> on a table
  without rows.
\<close>

definition CONTACTS_SHEET :: string where
  "CONTACTS_SHEET = ''CONTATOS''"

definition get_contacts :: "(string \<rightharpoonup> dataframe) \<Rightarrow> error + dataframe" where
  "get_contacts dfs =
     (case dfs CONTACTS_SHEET of
        None \<Rightarrow> Inl KeyError
      | Some contacts_df \<Rightarrow>
          (case rows contacts_df of
             [] \<Rightarrow> Inl IndexError
           | first # _ \<Rightarrow>
               Inr \<lparr>columns = first, rows = drop 1 (rows contacts_df)\<rparr>))"

section \<open>File namer\<close>

text \<open>
  \<^verbatim>\<open>
  seller_name = (filename_sheet[self.filename_location["col"]]
                 .iloc[0]
                 .replace(' ', '_'))
  clean_seller_name = re.sub('[^A-Za-z0-9]+', '', seller_name)
  path = f"{self.output_folder}/relatorio-{clean_seller_name}.xlsx"
  \<close>
\<close>

definition is_alnum :: "char \<Rightarrow> bool" where
  "is_alnum c =
     (let n = (of_char c :: nat)
      in (65 \<le> n \<and> n \<le> 90) \<or> (97 \<le> n \<and> n \<le> 122) \<or> (48 \<le> n \<and> n \<le> 57))"

text \<open>\<^verbatim>\<open>s.replace(' ', '_')\<close>: every space character becomes an underscore.\<close>

definition replace_space :: "string \<Rightarrow> string" where
  "replace_space s = map (\<lambda>c. if c = CHR '' '' then CHR ''_'' else c) s"

text \<open>
  \<^verbatim>\<open>re.sub('[^A-Za-z0-9]+', '', s)\<close>: scanning from the left, every maximal run of
  characters outside the three ranges is replaced by the empty string.
\<close>

function re_sub_non_alnum :: "string \<Rightarrow> string" where
  "re_sub_non_alnum [] = []"
| "re_sub_non_alnum (c # cs) =
     (if is_alnum c then c # re_sub_non_alnum cs
      else re_sub_non_alnum (dropWhile (\<lambda>d. \<not> is_alnum d) cs))"
  by pat_completeness auto
termination
  by (relation "measure length") (auto simp: less_Suc_eq_le length_dropWhile_le)

definition clean_seller_name :: "string \<Rightarrow> string" where
  "clean_seller_name seller_name = re_sub_non_alnum (replace_space seller_name)"

definition save_path :: "string \<Rightarrow> string \<Rightarrow> string" where
  "save_path output_folder seller_name =
     output_folder @ ''/relatorio-'' @ clean_seller_name seller_name @ ''.xlsx''"

section \<open>The splitter object\<close>

text \<open>
  The fields \<^verbatim>\<open>SpreadsheetSplitter.__init__\<close> sets, followed by the part of the file
  system the methods act on: \<open>disk\<close> maps the path of a saved \<^verbatim>\<open>.xlsx\<close> file to the
  workbook it holds, \<open>folders\<close> are the directories that exist. \<open>template_file\<close> is
  the loaded workbook (the source overwrites the path with it). The dictionary
  \<^verbatim>\<open>filename_location\<close> has the two keys \<^verbatim>\<open>"sheet"\<close> and \<^verbatim>\<open>"col"\<close>. Writing a file
  into an existing folder succeeds, and reading a saved file back gives the workbook
  that was saved.
\<close>

record splitter =
  template_file :: workbook
  input_sheet_names :: "string list"
  output_folder :: string
  dfs :: "string \<rightharpoonup> dataframe"
  files :: "string list"
  id_column :: string
  filename_sheet :: string
  filename_col :: string
  contacts :: dataframe
  disk :: "string \<rightharpoonup> workbook"
  folders :: "string set"

section \<open>Template filler\<close>

text \<open>
  \<^verbatim>\<open>
  def clean_spreadsheet(self) -> None:
      for ws in self.input_sheet_names:
          for row in self.template_file[ws].iter_rows(min_row=1, min_col=1,
                                                      max_row=50, max_col=50):
              for cell in row:
                  cell.value = None
  \<close>
  \<^verbatim>\<open>self.template_file[ws]\<close> raises \<^verbatim>\<open>KeyError\<close> when the workbook has no such sheet;
  the sheets handled before it stay cleared.
\<close>

definition clear_row :: "nat \<Rightarrow> worksheet \<Rightarrow> worksheet" where
  "clear_row r w = fold (\<lambda>c v. v((r, c) := CNone)) [1..<51] w"

definition clear_window :: "worksheet \<Rightarrow> worksheet" where
  "clear_window w = fold clear_row [1..<51] w"

fun clean_loop :: "string list \<Rightarrow> workbook \<Rightarrow> error option \<times> workbook" where
  "clean_loop [] wb = (None, wb)"
| "clean_loop (ws # rest) wb =
     (case wb ws of
        None \<Rightarrow> (Some KeyError, wb)
      | Some sheet \<Rightarrow> clean_loop rest (wb(ws \<mapsto> clear_window sheet)))"

definition clean_spreadsheet :: "splitter \<Rightarrow> error option \<times> splitter" where
  "clean_spreadsheet s =
     (case clean_loop (input_sheet_names s) (template_file s) of
        (e, wb) \<Rightarrow> (e, s\<lparr>template_file := wb\<rparr>))"

text \<open>
  \<^verbatim>\<open>worksheet.cell(row=r, column=c, value=v)\<close> assigns the value unless it is
  \<^verbatim>\<open>None\<close>.
\<close>

definition write_cell :: "nat \<Rightarrow> nat \<Rightarrow> cell \<Rightarrow> worksheet \<Rightarrow> worksheet" where
  "write_cell r c v w = (if v = CNone then w else w((r, c) := v))"

text \<open>
  \<^verbatim>\<open>
  def fill_cols(self, merchant_dfs: dict) -> None:
      for ws in self.input_sheet_names:
          worksheet = self.template_file[ws]
          current_df = merchant_dfs[ws]
          cols = current_df.columns
          for ncol, col in enumerate(cols):
              worksheet.cell(row=1, column=ncol + 1, value=col)
          for index, row in current_df.reset_index().iterrows():
              row_index = index + 2  # considering excel 1 based indexes
              for ncol, col in enumerate(current_df.columns):
                  worksheet.cell(row=row_index, column=ncol + 1, value=row[col])
  \<close>
  \<^verbatim>\<open>reset_index()\<close> numbers the rows from 0, and \<^verbatim>\<open>row[col]\<close> is the row's value under
  the label \<open>col\<close>.
\<close>

definition row_get :: "cell list \<Rightarrow> cell list \<Rightarrow> cell \<Rightarrow> cell" where
  "row_get cols r col =
     (case index_of col cols of None \<Rightarrow> CNone | Some i \<Rightarrow> row_value i r)"

definition fill_header :: "cell list \<Rightarrow> worksheet \<Rightarrow> worksheet" where
  "fill_header cols w =
     fold (\<lambda>(ncol, col). write_cell 1 (ncol + 1) col) (enumerate 0 cols) w"

definition fill_row :: "cell list \<Rightarrow> nat \<times> cell list \<Rightarrow> worksheet \<Rightarrow> worksheet" where
  "fill_row cols = (\<lambda>(index, r) w.
     fold (\<lambda>(ncol, col). write_cell (index + 2) (ncol + 1) (row_get cols r col))
       (enumerate 0 cols) w)"

definition fill_sheet :: "dataframe \<Rightarrow> worksheet \<Rightarrow> worksheet" where
  "fill_sheet current_df w =
     fold (fill_row (columns current_df)) (enumerate 0 (rows current_df))
       (fill_header (columns current_df) w)"

fun fill_loop ::
  "string list \<Rightarrow> (string \<rightharpoonup> dataframe) \<Rightarrow> workbook \<Rightarrow> error option \<times> workbook" where
  "fill_loop [] merchant_dfs wb = (None, wb)"
| "fill_loop (ws # rest) merchant_dfs wb =
     (case wb ws of
        None \<Rightarrow> (Some KeyError, wb)
      | Some sheet \<Rightarrow>
          (case merchant_dfs ws of
             None \<Rightarrow> (Some KeyError, wb)
           | Some current_df \<Rightarrow>
               fill_loop rest merchant_dfs (wb(ws \<mapsto> fill_sheet current_df sheet))))"

definition fill_cols :: "(string \<rightharpoonup> dataframe) \<Rightarrow> splitter \<Rightarrow> error option \<times> splitter" where
  "fill_cols merchant_dfs s =
     (case fill_loop (input_sheet_names s) merchant_dfs (template_file s) of
        (e, wb) \<Rightarrow> (e, s\<lparr>template_file := wb\<rparr>))"

section \<open>Saving\<close>

text \<open>
  \<^verbatim>\<open>
  def get_save_path(self, merchant_dfs) -> str:
      filename_sheet = merchant_dfs[self.filename_location["sheet"]]
      seller_name = (filename_sheet[self.filename_location["col"]]
                     .iloc[0].replace(' ', '_'))
      clean_seller_name = re.sub('[^A-Za-z0-9]+', '', seller_name)
      path = f"{self.output_folder}/relatorio-{clean_seller_name}.xlsx"
      if not os.path.exists(self.output_folder):
          os.makedirs(self.output_folder)
      return path
  \<close>
  \<^verbatim>\<open>iloc[0]\<close> raises \<^verbatim>\<open>IndexError\<close> on a column without values, and only a text has
  the method \<^verbatim>\<open>replace\<close> (\<^verbatim>\<open>AttributeError\<close> otherwise).
\<close>

definition makedirs :: "splitter \<Rightarrow> splitter" where
  "makedirs s =
     (if output_folder s \<notin> folders s
      then s\<lparr>folders := insert (output_folder s) (folders s)\<rparr> else s)"

definition get_save_path ::
  "(string \<rightharpoonup> dataframe) \<Rightarrow> splitter \<Rightarrow> (error + string) \<times> splitter" where
  "get_save_path merchant_dfs s =
     (case merchant_dfs (filename_sheet s) of
        None \<Rightarrow> (Inl KeyError, s)
      | Some sheet_df \<Rightarrow>
          (case df_col sheet_df (CStr (filename_col s)) of
             Inl e \<Rightarrow> (Inl e, s)
           | Inr [] \<Rightarrow> (Inl IndexError, s)
           | Inr (CStr seller_name # _) \<Rightarrow>
               (Inr (save_path (output_folder s) seller_name), makedirs s)
           | Inr (_ # _) \<Rightarrow> (Inl AttributeError, s)))"

text \<open>
  \<^verbatim>\<open>
  def save_spreadsheet(self, merchant_dfs: dict) -> None:
      path = self.get_save_path(merchant_dfs)
      self.template_file.save(path)
      self.template_file = xl.load_workbook(path)   # Open saved file
      self.files.append(path)
  \<close>
\<close>

definition save_spreadsheet ::
  "(string \<rightharpoonup> dataframe) \<Rightarrow> splitter \<Rightarrow> error option \<times> splitter" where
  "save_spreadsheet merchant_dfs s =
     (case get_save_path merchant_dfs s of
        (Inl e, s1) \<Rightarrow> (Some e, s1)
      | (Inr path, s1) \<Rightarrow>
          (let s2 = s1\<lparr>disk := (disk s1)(path \<mapsto> template_file s1)\<rparr>
           in case disk s2 path of
                None \<Rightarrow> (Some FileNotFoundError, s2)
              | Some wb \<Rightarrow> (None, s2\<lparr>template_file := wb, files := files s2 @ [path]\<rparr>)))"

section \<open>Export loop\<close>

text \<open>
  Python's \<^verbatim>\<open>int(x)\<close> on a spreadsheet value. On a text, CPython first turns every
  non-ASCII space into an ASCII space (below 256 these are U+0085 and U+00A0; no code
  point from 128 to 255 is a decimal digit), and then reads, in this order: the
  whitespace of C's \<^verbatim>\<open>isspace\<close> (codes 9 to 13 and 32), an optional sign, decimal
  digits with single underscores allowed between two digits, and the same whitespace
  up to the end of the text. The control characters 28 to 31 are not skipped. A text
  with more decimal digits than \<^verbatim>\<open>sys.int_max_str_digits\<close> (4300 unless configured, in
  CPython 3.11 and later) is refused as well.
\<close>

definition int_max_str_digits :: nat where
  "int_max_str_digits = 4300"

definition is_digit :: "char \<Rightarrow> bool" where
  "is_digit c = (48 \<le> (of_char c :: nat) \<and> (of_char c :: nat) \<le> 57)"

definition digit_val :: "char \<Rightarrow> nat" where
  "digit_val c = of_char c - 48"

definition is_c_space :: "char \<Rightarrow> bool" where
  "is_c_space c = (let n = (of_char c :: nat) in (9 \<le> n \<and> n \<le> 13) \<or> n = 32)"

definition space_to_ascii :: "string \<Rightarrow> string" where
  "space_to_ascii s =
     map (\<lambda>c. if (of_char c :: nat) = 133 \<or> (of_char c :: nat) = 160 then CHR '' '' else c) s"

fun parse_digits :: "nat \<Rightarrow> string \<Rightarrow> nat option" where
  "parse_digits acc [] = Some acc"
| "parse_digits acc [c] =
     (if is_digit c then Some (10 * acc + digit_val c) else None)"
| "parse_digits acc (c # d # ds) =
     (if is_digit c then parse_digits (10 * acc + digit_val c) (d # ds)
      else if c = CHR ''_'' \<and> is_digit d then parse_digits (10 * acc + digit_val d) ds
      else None)"

definition parse_nat :: "string \<Rightarrow> nat option" where
  "parse_nat s =
     (case s of
        [] \<Rightarrow> None
      | c # cs \<Rightarrow>
          if is_digit c \<and> length (filter is_digit s) \<le> int_max_str_digits
          then parse_digits (digit_val c) cs else None)"

definition strip :: "string \<Rightarrow> string" where
  "strip s = rev (dropWhile is_c_space (rev (dropWhile is_c_space s)))"

definition int_of_str :: "string \<Rightarrow> int option" where
  "int_of_str s =
     (case strip (space_to_ascii s) of
        [] \<Rightarrow> None
      | c # cs \<Rightarrow>
          if c = CHR ''-'' then map_option (\<lambda>n. - int n) (parse_nat cs)
          else if c = CHR ''+'' then map_option int (parse_nat cs)
          else map_option int (parse_nat (c # cs)))"

definition py_int :: "cell \<Rightarrow> error + int" where
  "py_int v =
     (case v of
        CNone \<Rightarrow> Inl TypeError
      | CInt n \<Rightarrow> Inr n
      | CStr t \<Rightarrow> (case int_of_str t of None \<Rightarrow> Inl ValueError | Some n \<Rightarrow> Inr n))"

text \<open>\<^verbatim>\<open>list(map(int, values))\<close>: the first value that \<^verbatim>\<open>int\<close> refuses raises.\<close>

fun map_int :: "cell list \<Rightarrow> error + int list" where
  "map_int [] = Inr []"
| "map_int (v # vs) =
     (case py_int v of
        Inl e \<Rightarrow> Inl e
      | Inr n \<Rightarrow> (case map_int vs of Inl e \<Rightarrow> Inl e | Inr ns \<Rightarrow> Inr (n # ns)))"

text \<open>
  \<^verbatim>\<open>df[df[self.id_column] == merchant_id]\<close>: the rows whose identifier equals the
  integer, in their order, under the same labels.
\<close>

definition filter_merchant :: "string \<Rightarrow> int \<Rightarrow> dataframe \<Rightarrow> error + dataframe" where
  "filter_merchant idc merchant_id df =
     (case index_of (CStr idc) (columns df) of
        None \<Rightarrow> Inl KeyError
      | Some i \<Rightarrow>
          Inr (df\<lparr>rows := filter (\<lambda>r. row_value i r = CInt merchant_id) (rows df)\<rparr>))"

text \<open>
  \<^verbatim>\<open>
  merchant_dfs = dict()
  for sheet_name in self.input_sheet_names:
      df = self.dfs[sheet_name]
      df = df[df[self.id_column] == merchant_id]
      merchant_dfs[sheet_name] = df
  \<close>
\<close>

fun select_loop ::
  "string list \<Rightarrow> splitter \<Rightarrow> int \<Rightarrow> (string \<rightharpoonup> dataframe) \<Rightarrow>
     error + (string \<rightharpoonup> dataframe)" where
  "select_loop [] s merchant_id merchant_dfs = Inr merchant_dfs"
| "select_loop (sheet_name # rest) s merchant_id merchant_dfs =
     (case dfs s sheet_name of
        None \<Rightarrow> Inl KeyError
      | Some df \<Rightarrow>
          (case filter_merchant (id_column s) merchant_id df of
             Inl e \<Rightarrow> Inl e
           | Inr df' \<Rightarrow>
               select_loop rest s merchant_id (merchant_dfs(sheet_name \<mapsto> df'))))"

text \<open>One turn of the loop of \<^verbatim>\<open>split_sellers\<close>.\<close>

definition split_merchant :: "int \<Rightarrow> splitter \<Rightarrow> error option \<times> splitter" where
  "split_merchant merchant_id s =
     (case select_loop (input_sheet_names s) s merchant_id Map.empty of
        Inl e \<Rightarrow> (Some e, s)
      | Inr merchant_dfs \<Rightarrow>
          (case clean_spreadsheet s of
             (Some e, s1) \<Rightarrow> (Some e, s1)
           | (None, s1) \<Rightarrow>
               (case fill_cols merchant_dfs s1 of
                  (Some e, s2) \<Rightarrow> (Some e, s2)
                | (None, s2) \<Rightarrow> save_spreadsheet merchant_dfs s2)))"

fun split_loop :: "int list \<Rightarrow> splitter \<Rightarrow> error option \<times> splitter" where
  "split_loop [] s = (None, s)"
| "split_loop (merchant_id # rest) s =
     (case split_merchant merchant_id s of
        (Some e, s') \<Rightarrow> (Some e, s')
      | (None, s') \<Rightarrow> split_loop rest s')"

text \<open>
  \<^verbatim>\<open>
  def split_sellers(self) -> None:
      merchant_list = list(map(int, self.contacts[self.id_column]))
      for merchant_id in tqdm(merchant_list, desc="Splitting Files"):
          ...
  \<close>
\<close>

definition split_sellers :: "splitter \<Rightarrow> error option \<times> splitter" where
  "split_sellers s =
     (case df_col (contacts s) (CStr (id_column s)) of
        Inl e \<Rightarrow> (Some e, s)
      | Inr ids \<Rightarrow>
          (case map_int ids of
             Inl e \<Rightarrow> (Some e, s)
           | Inr merchant_list \<Rightarrow> split_loop merchant_list s))"

text \<open>
  The constructor: \<^verbatim>\<open>load_workbook\<close> of the template path, the tables
  \<^verbatim>\<open>pd.read_excel(input_data_file, sheet_name=None, header=0)\<close> returned (the argument
  \<open>data\<close>), and \<^verbatim>\<open>get_contacts\<close>.
\<close>

definition init ::
  "string \<Rightarrow> (string \<rightharpoonup> dataframe) \<Rightarrow> string list \<Rightarrow> string \<Rightarrow> string \<Rightarrow>
     string \<Rightarrow> string \<Rightarrow> (string \<rightharpoonup> workbook) \<Rightarrow> string set \<Rightarrow> error + splitter" where
  "init template_path data sheet_names out_folder idc fn_sheet fn_col dsk dirs =
     (case dsk template_path of
        None \<Rightarrow> Inl FileNotFoundError
      | Some wb \<Rightarrow>
          (case get_contacts data of
             Inl e \<Rightarrow> Inl e
           | Inr c \<Rightarrow>
               Inr \<lparr>template_file = wb, input_sheet_names = sheet_names,
                    output_folder = out_folder, dfs = data, files = [],
                    id_column = idc, filename_sheet = fn_sheet, filename_col = fn_col,
                    contacts = c, disk = dsk, folders = dirs\<rparr>))"

section \<open>Mailer\<close>

text \<open>
  A message as \<^verbatim>\<open>Mailman.__init__\<close> stores it, and what the mail step can change
  outside the program: the messages handed to the mail client (\<open>attempts\<close>, one entry
  per call of \<^verbatim>\<open>send_email\<close>), the messages that went out (\<open>sent\<close>) and the lines
  printed to the console.
\<close>

record mail =
  recipient :: cell
  subject :: cell
  body :: cell
  attachment :: string

datatype printed = Contacts dataframe | Line string

record world =
  attempts :: "mail list"
  sent :: "mail list"
  console :: "printed list"

text \<open>
  The environment of the mail step. \<open>outlook\<close> is the behaviour of the desktop mail
  client: given the messages handed to it so far and the next message, either every call
  of the \<^verbatim>\<open>try\<close> block returns and the message goes out (\<open>None\<close>), or one of them
  raises an \<^verbatim>\<open>Exception\<close> \<open>e\<close> and nothing goes out (\<open>Some (str e)\<close>). \<open>abspath\<close> is
  \<^verbatim>\<open>os.path.abspath\<close> in the current directory.
\<close>

record env =
  outlook :: "mail list \<Rightarrow> mail \<Rightarrow> string option"
  abspath :: "string \<Rightarrow> string"

text \<open>
  \<^verbatim>\<open>
  def send_email(self):
      try:
          outlook = win32.Dispatch('outlook.application')
          mail = outlook.CreateItem(0)
          mail.To = self.email_list
          ...
          mail.Attachments.Add(attachment)
          mail.Send()
      except Exception as e:
          print(f"Error ocurred while sending email: {str(e)}")
  \<close>
\<close>

definition send_email :: "env \<Rightarrow> mail \<Rightarrow> world \<Rightarrow> world" where
  "send_email ev m w =
     (case outlook ev (attempts w) m of
        None \<Rightarrow> w\<lparr>attempts := attempts w @ [m], sent := sent w @ [m]\<rparr>
      | Some e \<Rightarrow>
          w\<lparr>attempts := attempts w @ [m],
            console := console w @ [Line (''Error ocurred while sending email: '' @ e)]\<rparr>)"

text \<open>
  \<^verbatim>\<open>
  def send_multiple_emails(files, emails, subject, body):
      assert len(files) == len(emails), \
          "Len of File List is not equal Len of Email List"
      for idx, file in tqdm(enumerate(files), desc="Sending Emails"):
          mail_man = Mailman(recipient=emails[idx], subject=subject, body=body,
                             attachment=os.path.abspath(file))
          mail_man.send_email()
  \<close>
  \<^verbatim>\<open>emails[idx]\<close> raises when \<open>idx\<close> is not a position of \<open>emails\<close>.
\<close>

fun send_loop ::
  "env \<Rightarrow> (nat \<times> string) list \<Rightarrow> cell list \<Rightarrow> cell \<Rightarrow> cell \<Rightarrow> world \<Rightarrow>
     error option \<times> world" where
  "send_loop ev [] emails subj bdy w = (None, w)"
| "send_loop ev ((idx, file) # rest) emails subj bdy w =
     (if idx < length emails
      then send_loop ev rest emails subj bdy
             (send_email ev
                \<lparr>recipient = emails ! idx, subject = subj, body = bdy,
                 attachment = abspath ev file\<rparr> w)
      else (Some IndexError, w))"

definition send_multiple_emails ::
  "env \<Rightarrow> string list \<Rightarrow> cell list \<Rightarrow> cell \<Rightarrow> cell \<Rightarrow> world \<Rightarrow> error option \<times> world" where
  "send_multiple_emails ev fs emails subj bdy w =
     (if length fs = length emails
      then send_loop ev (enumerate 0 fs) emails subj bdy w
      else (Some AssertionError, w))"

section \<open>Confirmation gate and entry point\<close>

definition CONFIRMATION_KEYWORD :: string where
  "CONFIRMATION_KEYWORD = ''send''"

definition COLUMN_EMAIL :: string where
  "COLUMN_EMAIL = ''email''"

definition COLUMN_SUBJECT :: string where
  "COLUMN_SUBJECT = ''email_subject''"

definition COLUMN_BODY :: string where
  "COLUMN_BODY = ''email_body''"

definition COLUMN_ID :: string where
  "COLUMN_ID = ''merchant_customer_id''"

definition FILE_TEMPLATE :: string where
  "FILE_TEMPLATE = ''template.xlsx''"

definition SHEETS_INPUT :: "string list" where
  "SHEETS_INPUT = [''GMS_AGG'', ''GMS_SKU'']"

definition SHEETS_FILENAME_col :: string where
  "SHEETS_FILENAME_col = ''seller_name''"

definition SHEETS_FILENAME_sheet :: string where
  "SHEETS_FILENAME_sheet = ''GMS_AGG''"

definition OUTPUT_FOLDER :: string where
  "OUTPUT_FOLDER = ''output''"

text \<open>
  \<^verbatim>\<open>
  def confirm_send_email():
      return (input(f"Please check files and type '{CONFIRMATION_KEYWORD}' "
                    "to send emails: ") == CONFIRMATION_KEYWORD)
  \<close>
  The argument is the line \<^verbatim>\<open>input\<close> returns.
\<close>

definition confirm_send_email :: "string \<Rightarrow> bool" where
  "confirm_send_email typed = (typed = CONFIRMATION_KEYWORD)"

text \<open>
  The export of \<^verbatim>\<open>main\<close>: the constructor with the module's constants, then
  \<^verbatim>\<open>split_sellers\<close>. The result is \<open>None\<close> when the constructor raised.
\<close>

definition export ::
  "(string \<rightharpoonup> dataframe) \<Rightarrow> (string \<rightharpoonup> workbook) \<Rightarrow> string set \<Rightarrow>
     error option \<times> splitter option" where
  "export data dsk dirs =
     (case init FILE_TEMPLATE data SHEETS_INPUT OUTPUT_FOLDER COLUMN_ID
             SHEETS_FILENAME_sheet SHEETS_FILENAME_col dsk dirs of
        Inl e \<Rightarrow> (Some e, None)
      | Inr deal_splitter \<Rightarrow>
          (case split_sellers deal_splitter of (e, s) \<Rightarrow> (e, Some s)))"

text \<open>\<^verbatim>\<open>series[0]\<close> on a column of the contacts: \<^verbatim>\<open>KeyError\<close> when it has no row.\<close>

definition first_of :: "dataframe \<Rightarrow> string \<Rightarrow> error + cell" where
  "first_of df label =
     (case df_col df (CStr label) of
        Inl e \<Rightarrow> Inl e
      | Inr [] \<Rightarrow> Inl KeyError
      | Inr (v # _) \<Rightarrow> Inr v)"

text \<open>
  \<^verbatim>\<open>
  def main():
      deal_splitter = SpreadsheetSplitter(...)
      deal_splitter.split_sellers()
      print(deal_splitter.contacts)
      if confirm_send_email():
          send_multiple_emails(
              files=deal_splitter.files,
              emails=deal_splitter.contacts[COLUMN_EMAIL],
              subject=deal_splitter.contacts[COLUMN_SUBJECT][0],
              body=deal_splitter.contacts[COLUMN_BODY][0])
  \<close>
  \<open>typed\<close> is the line typed at the prompt. The result is the exception that ended the
  run, if any, the splitter (with the files written) and the world of the mail step.
\<close>

definition main ::
  "env \<Rightarrow> (string \<rightharpoonup> dataframe) \<Rightarrow> string \<Rightarrow> (string \<rightharpoonup> workbook) \<Rightarrow> string set \<Rightarrow>
     world \<Rightarrow> error option \<times> splitter option \<times> world" where
  "main ev data typed dsk dirs w =
     (case export data dsk dirs of
        (Some e, so) \<Rightarrow> (Some e, so, w)
      | (None, None) \<Rightarrow> (None, None, w)
      | (None, Some s) \<Rightarrow>
          (let w1 = w\<lparr>console := console w @ [Contacts (contacts s)]\<rparr>
           in if confirm_send_email typed
              then (case df_col (contacts s) (CStr COLUMN_EMAIL) of
                      Inl e \<Rightarrow> (Some e, Some s, w1)
                    | Inr emails \<Rightarrow>
                        (case first_of (contacts s) COLUMN_SUBJECT of
                           Inl e \<Rightarrow> (Some e, Some s, w1)
                         | Inr subj \<Rightarrow>
                             (case first_of (contacts s) COLUMN_BODY of
                                Inl e \<Rightarrow> (Some e, Some s, w1)
                              | Inr bdy \<Rightarrow>
                                  (case send_multiple_emails ev (files s) emails subj bdy w1 of
                                     (e, w2) \<Rightarrow> (e, Some s, w2)))))
              else (None, Some s, w1)))"

section \<open>The wording of the specification\<close>

text \<open>
  The file name as the specification words it: whitespace replaced by underscore, then
  every character that is not alphanumeric removed. Whitespace is what
  \<^verbatim>\<open>str.isspace\<close> accepts below 256.
\<close>

definition is_space :: "char \<Rightarrow> bool" where
  "is_space c =
     (let n = (of_char c :: nat)
      in (9 \<le> n \<and> n \<le> 13) \<or> (28 \<le> n \<and> n \<le> 32) \<or> n = 133 \<or> n = 160)"

definition spec_sanitize :: "string \<Rightarrow> string" where
  "spec_sanitize seller_name =
     filter is_alnum (map (\<lambda>c. if is_space c then CHR ''_'' else c) seller_name)"



section \<open>Example data\<close>

text \<open>
  A small input workbook. The sheet of the contacts carries its labels in its first
  row of data, as \<^verbatim>\<open>get_contacts\<close> expects. Merchant 2 has no row in \<^verbatim>\<open>GMS_SKU\<close>.
\<close>

definition ex_contacts_sheet :: dataframe where
  "ex_contacts_sheet =
     \<lparr>columns = [CStr ''A'', CStr ''B'', CStr ''C'', CStr ''D''],
      rows = [[CStr ''merchant_customer_id'', CStr ''email'', CStr ''email_subject'',
               CStr ''email_body''],
              [CInt 1, CStr ''acme@example.com'', CStr ''Report'', CStr ''Hello''],
              [CInt 2, CStr ''beta@example.com'', CNone, CNone]]\<rparr>"

definition ex_agg :: dataframe where
  "ex_agg =
     \<lparr>columns = [CStr ''merchant_customer_id'', CStr ''seller_name''],
      rows = [[CInt 1, CStr ''Acme Co.!''], [CInt 2, CStr ''Beta'']]\<rparr>"

definition ex_sku :: dataframe where
  "ex_sku =
     \<lparr>columns = [CStr ''merchant_customer_id'', CStr ''sku''],
      rows = [[CInt 1, CStr ''SKU1'']]\<rparr>"

definition ex_data :: "string \<rightharpoonup> dataframe" where
  "ex_data =
     [''CONTATOS'' \<mapsto> ex_contacts_sheet, ''GMS_AGG'' \<mapsto> ex_agg, ''GMS_SKU'' \<mapsto> ex_sku]"


text \<open>A contact whose identifier is not a number.\<close>

definition ex_data_bad_id :: "string \<rightharpoonup> dataframe" where
  "ex_data_bad_id =
     ex_data(''CONTATOS'' \<mapsto>
       ex_contacts_sheet\<lparr>rows := rows ex_contacts_sheet @
         [[CStr ''n/a'', CStr ''gamma@example.com'', CNone, CNone]]\<rparr>)"

text \<open>
  A contact whose identifier is the text \<^verbatim>\<open>1\<close> after the control character 28, which
  \<^verbatim>\<open>int\<close> does not skip.
\<close>

definition ex_data_ctrl_id :: "string \<rightharpoonup> dataframe" where
  "ex_data_ctrl_id =
     ex_data(''CONTATOS'' \<mapsto>
       ex_contacts_sheet\<lparr>rows := rows ex_contacts_sheet @
         [[CStr [CHR 0x1C, CHR ''1''], CStr ''gamma@example.com'', CNone, CNone]]\<rparr>)"


text \<open>
  A template with the two input sheets and a sheet \<^verbatim>\<open>Pivot\<close>. The input sheets hold a
  stale value in row 60, below the window that is cleared.
\<close>

definition ex_sheet :: worksheet where
  "ex_sheet = (\<lambda>_. CNone)((60, 1) := CStr ''stale'')"

definition ex_pivot :: worksheet where
  "ex_pivot = (\<lambda>_. CNone)((1, 1) := CStr ''pivot'')"

definition ex_template :: workbook where
  "ex_template = [''GMS_AGG'' \<mapsto> ex_sheet, ''GMS_SKU'' \<mapsto> ex_sheet, ''Pivot'' \<mapsto> ex_pivot]"

definition ex_disk :: "string \<rightharpoonup> workbook" where
  "ex_disk = [''template.xlsx'' \<mapsto> ex_template]"

definition ex_splitter :: "(string \<rightharpoonup> dataframe) \<Rightarrow> splitter" where
  "ex_splitter data =
     \<lparr>template_file = ex_template, input_sheet_names = SHEETS_INPUT,
      output_folder = OUTPUT_FOLDER, dfs = data, files = [],
      id_column = COLUMN_ID, filename_sheet = SHEETS_FILENAME_sheet,
      filename_col = SHEETS_FILENAME_col,
      contacts = \<lparr>columns = hd (rows (the (data ''CONTATOS''))),
                  rows = tl (rows (the (data ''CONTATOS'')))\<rparr>,
      disk = ex_disk, folders = {}\<rparr>"

text \<open>A mail client that refuses every message to \<^verbatim>\<open>beta@example.com\<close>.\<close>

definition ex_env :: env where
  "ex_env =
     \<lparr>outlook = (\<lambda>history m.
        if recipient m = CStr ''beta@example.com'' then Some ''rejected'' else None),
      abspath = (\<lambda>file. ''C:/run/'' @ file)\<rparr>"

definition ex_world :: world where
  "ex_world = \<lparr>attempts = [], sent = [], console = []\<rparr>"

section \<open>File naming\<close>

lemma re_sub_non_alnum_filter: "re_sub_non_alnum s = filter is_alnum s"
proof (induction s rule: re_sub_non_alnum.induct)
  case 1
  show ?case by simp
next
  case (2 c cs)
  show ?case
  proof (cases "is_alnum c")
    case True
    with 2 show ?thesis by simp
  next
    case False
    have "filter is_alnum (dropWhile (\<lambda>d. \<not> is_alnum d) cs) = filter is_alnum cs"
      by (induction cs) auto
    with False 2 show ?thesis by simp
  qed
qed

lemma spec_sanitize_refines: "clean_seller_name n = spec_sanitize n"
proof -
  have "filter is_alnum (map (\<lambda>c. if c = CHR '' '' then CHR ''_'' else c) n) = filter is_alnum n"
    by (induction n) (auto simp: is_alnum_def)
  moreover have "filter is_alnum (map (\<lambda>c. if is_space c then CHR ''_'' else c) n) = filter is_alnum n"
    by (induction n) (auto simp: is_alnum_def is_space_def Let_def)
  ultimately show ?thesis
    by (simp add: clean_seller_name_def spec_sanitize_def replace_space_def re_sub_non_alnum_filter)
qed

text \<open>
  Claim C2. When the merchant's rows of the file name sheet start with the text
  \<open>seller_name\<close>, \<^verbatim>\<open>get_save_path\<close> returns the output folder, \<^verbatim>\<open>/relatorio-\<close>, the
  name with whitespace replaced by underscore and then every non-alphanumeric character
  removed, and \<^verbatim>\<open>.xlsx\<close>; for the folder \<^verbatim>\<open>output\<close> and the name \<^verbatim>\<open>Acme Co.!\<close> this is
  \<^verbatim>\<open>output/relatorio-AcmeCo.xlsx\<close>.
\<close>

theorem get_save_path_sanitized:
  assumes "merchant_dfs (filename_sheet s) = Some df"
    and "df_col df (CStr (filename_col s)) = Inr (CStr seller_name # others)"
  shows "fst (get_save_path merchant_dfs s) =
           Inr (output_folder s @ ''/relatorio-'' @ spec_sanitize seller_name @ ''.xlsx'') \<and>
         (output_folder s = ''output'' \<and> seller_name = ''Acme Co.!'' \<longrightarrow>
            fst (get_save_path merchant_dfs s) = Inr ''output/relatorio-AcmeCo.xlsx'')"
proof -
  have p: "fst (get_save_path merchant_dfs s) =
      Inr (output_folder s @ ''/relatorio-'' @ clean_seller_name seller_name @ ''.xlsx'')"
    using assms by (simp add: get_save_path_def save_path_def)
  have "clean_seller_name ''Acme Co.!'' = ''AcmeCo''"
    by (simp add: clean_seller_name_def replace_space_def is_alnum_def)
  with p show ?thesis by (simp add: spec_sanitize_refines)
qed

theorem get_save_path_sanitized_witness:
  "fst (get_save_path [''GMS_AGG'' \<mapsto> ex_agg] (ex_splitter ex_data)) =
     Inr ''output/relatorio-AcmeCo.xlsx''"
proof -
  have a: "[''GMS_AGG'' \<mapsto> ex_agg] (filename_sheet (ex_splitter ex_data)) = Some ex_agg"
    by (simp add: ex_splitter_def SHEETS_FILENAME_sheet_def)
  have b: "df_col ex_agg (CStr (filename_col (ex_splitter ex_data))) =
             Inr (CStr ''Acme Co.!'' # [CStr ''Beta''])"
    by (simp add: ex_splitter_def SHEETS_FILENAME_col_def df_col_def ex_agg_def row_value_def)
  have c: "output_folder (ex_splitter ex_data) = ''output''"
    by (simp add: ex_splitter_def OUTPUT_FOLDER_def)
  from get_save_path_sanitized
         [where merchant_dfs = "[''GMS_AGG'' \<mapsto> ex_agg]" and s = "ex_splitter ex_data"
            and df = ex_agg and seller_name = "''Acme Co.!''" and others = "[CStr ''Beta'']",
          OF a b, THEN conjunct2]
       c
  show ?thesis by blast
qed

section \<open>Contacts\<close>

text \<open>
  Claim C8. \<^verbatim>\<open>get_contacts\<close> returns the table whose labels are the first row of the
  table of the sheet \<^verbatim>\<open>CONTATOS\<close> and whose rows are the remaining rows in their order;
  on a table without rows it raises \<^verbatim>\<open>IndexError\<close>.
\<close>

theorem get_contacts_promotes_first_row:
  assumes "tables CONTACTS_SHEET = Some contacts_df"
  shows "(rows contacts_df = [] \<longrightarrow> get_contacts tables = Inl IndexError) \<and>
         (\<forall>first rest. rows contacts_df = first # rest \<longrightarrow>
            get_contacts tables = Inr \<lparr>columns = first, rows = rest\<rparr>)"
  using assms by (simp add: get_contacts_def)

theorem get_contacts_promotes_first_row_witness:
  "get_contacts ex_data =
     Inr \<lparr>columns = [CStr ''merchant_customer_id'', CStr ''email'', CStr ''email_subject'',
                     CStr ''email_body''],
          rows = [[CInt 1, CStr ''acme@example.com'', CStr ''Report'', CStr ''Hello''],
                  [CInt 2, CStr ''beta@example.com'', CNone, CNone]]\<rparr> \<and>
   get_contacts [''CONTATOS'' \<mapsto> \<lparr>columns = [CStr ''A''], rows = []\<rparr>] = Inl IndexError"
proof -
  have a: "ex_data CONTACTS_SHEET = Some ex_contacts_sheet"
    by (simp add: ex_data_def CONTACTS_SHEET_def)
  have b: "[''CONTATOS'' \<mapsto> \<lparr>columns = [CStr ''A''], rows = []\<rparr>] CONTACTS_SHEET =
             Some \<lparr>columns = [CStr ''A''], rows = []\<rparr>"
    by (simp add: CONTACTS_SHEET_def)
  from get_contacts_promotes_first_row [where tables = ex_data and contacts_df = ex_contacts_sheet]
       get_contacts_promotes_first_row
         [where tables = "[''CONTATOS'' \<mapsto> \<lparr>columns = [CStr ''A''], rows = []\<rparr>]"
            and contacts_df = "\<lparr>columns = [CStr ''A''], rows = []\<rparr>"]
       a b
  show ?thesis by (simp add: ex_contacts_sheet_def)
qed

section \<open>Mail\<close>

text \<open>
  Claim C4. When \<open>files\<close> and \<open>emails\<close> differ in length, \<^verbatim>\<open>send_multiple_emails\<close>
  raises \<^verbatim>\<open>AssertionError\<close> and the world is as before: no message was handed to the
  mail client.
\<close>

theorem send_multiple_emails_length_mismatch:
  assumes "length fs \<noteq> length emails"
  shows "send_multiple_emails ev fs emails subj bdy w = (Some AssertionError, w)"
  using assms by (simp add: send_multiple_emails_def)

theorem send_multiple_emails_length_mismatch_witness:
  "send_multiple_emails ex_env [''output/relatorio-AcmeCo.xlsx''] [] (CStr ''Report'')
     (CStr ''Hello'') ex_world = (Some AssertionError, ex_world)"
  using send_multiple_emails_length_mismatch
    [of "[''output/relatorio-AcmeCo.xlsx'']" "[]" ex_env "CStr ''Report''" "CStr ''Hello''" ex_world]
  by simp

lemma main_not_confirmed:
  assumes "\<not> confirm_send_email typed"
  shows "attempts (snd (snd (main ev data typed dsk dirs w))) = attempts w"
    and "sent (snd (snd (main ev data typed dsk dirs w))) = sent w"
  using assms by (auto simp: main_def Let_def split: prod.splits option.splits)

text \<open>
  Claim C5. \<^verbatim>\<open>confirm_send_email\<close> is true exactly when the typed line is \<^verbatim>\<open>send\<close>; for
  every other line \<^verbatim>\<open>main\<close> hands no message to the mail client and none goes out.
\<close>

theorem confirmation_gate:
  "confirm_send_email typed = (typed = ''send'') \<and>
   (typed \<noteq> ''send'' \<longrightarrow>
      attempts (snd (snd (main ev data typed dsk dirs w))) = attempts w \<and>
      sent (snd (snd (main ev data typed dsk dirs w))) = sent w)"
proof -
  have c: "confirm_send_email typed = (typed = ''send'')"
    by (simp add: confirm_send_email_def CONFIRMATION_KEYWORD_def)
  with main_not_confirmed [of typed ev data dsk dirs w] show ?thesis by simp
qed

theorem confirmation_gate_witness:
  "\<not> confirm_send_email ''Send'' \<and> \<not> confirm_send_email '''' \<and> \<not> confirm_send_email ''yes'' \<and>
   confirm_send_email ''send'' \<and>
   attempts (snd (snd (main ex_env ex_data ''Send'' ex_disk {} ex_world))) = [] \<and>
   sent (snd (snd (main ex_env ex_data ''Send'' ex_disk {} ex_world))) = []"
  using confirmation_gate [of "''Send''" ex_env ex_data ex_disk "{}" ex_world]
    confirmation_gate [of "''''" ex_env ex_data ex_disk "{}" ex_world]
    confirmation_gate [of "''yes''" ex_env ex_data ex_disk "{}" ex_world]
    confirmation_gate [of "''send''" ex_env ex_data ex_disk "{}" ex_world]
  by (simp add: ex_world_def)

section \<open>Export loop: identifiers\<close>

lemma map_int_fails:
  assumes "v \<in> set ids" and "py_int v = Inl e"
  shows "\<exists>e'. map_int ids = Inl e' \<and> e' \<in> {ValueError, TypeError}"
  using assms
proof (induction ids)
  case Nil
  then show ?case by simp
next
  case (Cons a ids)
  have t: "\<And>x e. py_int x = Inl e \<Longrightarrow> e \<in> {ValueError, TypeError}"
    by (auto simp: py_int_def split: cell.splits option.splits)
  show ?case
  proof (cases "py_int a")
    case (Inl e1)
    with t [of a e1] show ?thesis by simp
  next
    case (Inr n)
    with Cons have "v \<in> set ids" by auto
    from Cons.IH [OF this Cons.prems(2)] Inr show ?thesis by auto
  qed
qed

lemmas int_defs =
  py_int_def int_of_str_def strip_def space_to_ascii_def is_c_space_def parse_nat_def
  is_digit_def digit_val_def int_max_str_digits_def

lemma py_int_examples:
  "py_int (CStr '' -1_2 '') = Inr (- 12)"
  "py_int (CStr ''+007'') = Inr 7"
  "py_int (CStr [CHR 0x1C, CHR ''1'', CHR ''2'']) = Inl ValueError"
  "py_int (CStr [CHR ''1'', CHR ''2'', CHR 0x1F]) = Inl ValueError"
  "py_int (CStr [CHR ''2'', CHR 0xA0]) = Inr 2"
  "py_int (CStr [CHR 0x85, CHR ''2'']) = Inr 2"
  "py_int (CStr ''1__2'') = Inl ValueError"
  "py_int (CStr ''_12'') = Inl ValueError"
  "py_int (CStr ''12_'') = Inl ValueError"
  "py_int (CStr ''- 12'') = Inl ValueError"
  "py_int (CStr []) = Inl ValueError"
  "py_int (CStr ''n/a'') = Inl ValueError"
  "py_int CNone = Inl TypeError"
  by (simp_all add: int_defs)

lemma py_int_too_many_digits:
  "py_int (CStr (replicate 4301 (CHR ''1''))) = Inl ValueError"
proof -
  let ?t = "replicate 4301 (CHR ''1'')"
  have one: "is_digit (CHR ''1'')" "\<not> is_c_space (CHR ''1'')"
    by (simp_all add: is_digit_def is_c_space_def)
  have "space_to_ascii ?t = ?t" by (simp add: space_to_ascii_def)
  moreover have "strip ?t = ?t" by (simp add: strip_def dropWhile_replicate one)
  moreover have "?t = CHR ''1'' # replicate 4300 (CHR ''1'')"
    using replicate_Suc [of 4300 "CHR ''1''"] by simp
  moreover have "length (filter is_digit ?t) = 4301" by (simp add: one)
  ultimately have "int_of_str ?t = None"
    by (simp add: int_of_str_def parse_nat_def int_max_str_digits_def)
  then show ?thesis by (simp add: py_int_def)
qed

text \<open>
  Claim C9. When a value of the identifier column of the contacts is refused by
  \<^verbatim>\<open>int\<close>, \<^verbatim>\<open>split_sellers\<close> raises (\<^verbatim>\<open>ValueError\<close> or \<^verbatim>\<open>TypeError\<close>) with the splitter
  unchanged: no sheet was cleaned or filled, no file saved, the list of files is as it
  was.
\<close>

theorem split_sellers_rejects_ids_first:
  assumes "df_col (contacts s) (CStr (id_column s)) = Inr ids"
    and "v \<in> set ids" and "py_int v = Inl e"
  shows "\<exists>e'. e' \<in> {ValueError, TypeError} \<and> split_sellers s = (Some e', s)"
  using assms(1) map_int_fails [OF assms(2,3)] by (auto simp: split_sellers_def)

theorem split_sellers_rejects_ids_first_witness:
  "split_sellers (ex_splitter ex_data_bad_id) = (Some ValueError, ex_splitter ex_data_bad_id) \<and>
   split_sellers (ex_splitter ex_data_ctrl_id) = (Some ValueError, ex_splitter ex_data_ctrl_id)"
proof -
  have a: "df_col (contacts (ex_splitter ex_data_bad_id))
             (CStr (id_column (ex_splitter ex_data_bad_id))) =
      Inr [CInt 1, CInt 2, CStr ''n/a'']"
    by (simp add: ex_splitter_def ex_data_bad_id_def ex_data_def ex_contacts_sheet_def COLUMN_ID_def
          df_col_def row_value_def)
  have b: "CStr ''n/a'' \<in> set [CInt 1, CInt 2, CStr ''n/a'']" by simp
  have c: "py_int (CStr ''n/a'') = Inl ValueError"
    by (simp add: int_defs)
  have d: "fst (split_sellers (ex_splitter ex_data_bad_id)) \<noteq> Some TypeError"
    using a c by (simp add: split_sellers_def py_int_def)
  have a': "df_col (contacts (ex_splitter ex_data_ctrl_id))
             (CStr (id_column (ex_splitter ex_data_ctrl_id))) =
      Inr [CInt 1, CInt 2, CStr [CHR 0x1C, CHR ''1'']]"
    by (simp add: ex_splitter_def ex_data_ctrl_id_def ex_data_def ex_contacts_sheet_def
          COLUMN_ID_def df_col_def row_value_def)
  have b': "CStr [CHR 0x1C, CHR ''1''] \<in> set [CInt 1, CInt 2, CStr [CHR 0x1C, CHR ''1'']]"
    by simp
  have c': "py_int (CStr [CHR 0x1C, CHR ''1'']) = Inl ValueError"
    by (simp add: int_defs)
  have d': "fst (split_sellers (ex_splitter ex_data_ctrl_id)) \<noteq> Some TypeError"
    using a' c' by (simp add: split_sellers_def py_int_def)
  from split_sellers_rejects_ids_first [OF a b c] d
  have "split_sellers (ex_splitter ex_data_bad_id) = (Some ValueError, ex_splitter ex_data_bad_id)"
    by auto
  moreover from split_sellers_rejects_ids_first [OF a' b' c'] d'
  have "split_sellers (ex_splitter ex_data_ctrl_id) = (Some ValueError, ex_splitter ex_data_ctrl_id)"
    by auto
  ultimately show ?thesis by simp
qed

section \<open>Template filler: window and frame\<close>

lemma fold_clear_cells:
  "fold (\<lambda>c v. v((r, c) := CNone)) cs w (r', c') =
     (if r' = r \<and> c' \<in> set cs then CNone else w (r', c'))"
  by (induction cs arbitrary: w) auto

lemma clear_row_apply:
  "clear_row r w (r', c') = (if r' = r \<and> 1 \<le> c' \<and> c' \<le> 50 then CNone else w (r', c'))"
  unfolding clear_row_def fold_clear_cells by auto

lemma fold_clear_rows:
  "fold clear_row rs w (r', c') =
     (if r' \<in> set rs \<and> 1 \<le> c' \<and> c' \<le> 50 then CNone else w (r', c'))"
  by (induction rs arbitrary: w) (auto simp: clear_row_apply)

lemma clear_window_apply:
  "clear_window w (r, c) =
     (if 1 \<le> r \<and> r \<le> 50 \<and> 1 \<le> c \<and> c \<le> 50 then CNone else w (r, c))"
  unfolding clear_window_def fold_clear_rows by auto

lemma clear_window_idem: "clear_window (clear_window w) = clear_window w"
  by (rule ext) (auto simp: clear_window_apply)

lemma clean_loop_frame: "ws \<notin> set names \<Longrightarrow> snd (clean_loop names wb) ws = wb ws"
  by (induction names arbitrary: wb) (auto split: option.splits)

lemma clean_loop_cleared:
  "fst (clean_loop names wb) = None \<Longrightarrow> ws \<in> set names \<Longrightarrow>
     \<exists>sheet. wb ws = Some sheet \<and> snd (clean_loop names wb) ws = Some (clear_window sheet)"
proof (induction names arbitrary: wb)
  case Nil
  then show ?case by simp
next
  case (Cons a names)
  from Cons.prems(1) obtain sa where sa: "wb a = Some sa"
    by (cases "wb a") auto
  let ?wb = "wb(a \<mapsto> clear_window sa)"
  from Cons.prems(1) sa have ok: "fst (clean_loop names ?wb) = None" by simp
  have step: "clean_loop (a # names) wb = clean_loop names ?wb" using sa by simp
  show ?case
  proof (cases "ws \<in> set names")
    case True
    from Cons.IH [OF ok True] obtain sheet where
      s: "?wb ws = Some sheet" "snd (clean_loop names ?wb) ws = Some (clear_window sheet)"
      by blast
    show ?thesis
    proof (cases "ws = a")
      case True
      with s(1) have "sheet = clear_window sa" by simp
      with s(2) have "snd (clean_loop names ?wb) ws = Some (clear_window sa)"
        by (simp add: clear_window_idem)
      with True sa step show ?thesis by simp
    next
      case False
      with s step show ?thesis by simp
    qed
  next
    case False
    with Cons.prems(2) have "ws = a" by simp
    with False sa step show ?thesis by (simp add: clean_loop_frame)
  qed
qed

lemma clean_spreadsheet_fst:
  "fst (clean_spreadsheet s) = fst (clean_loop (input_sheet_names s) (template_file s))"
  by (simp add: clean_spreadsheet_def case_prod_beta)

lemma clean_spreadsheet_snd:
  "snd (clean_spreadsheet s) =
     s\<lparr>template_file := snd (clean_loop (input_sheet_names s) (template_file s))\<rparr>"
  by (simp add: clean_spreadsheet_def case_prod_beta)

lemma fill_cols_fst:
  "fst (fill_cols mdfs s) = fst (fill_loop (input_sheet_names s) mdfs (template_file s))"
  by (simp add: fill_cols_def case_prod_beta)

lemma fill_cols_snd:
  "snd (fill_cols mdfs s) =
     s\<lparr>template_file := snd (fill_loop (input_sheet_names s) mdfs (template_file s))\<rparr>"
  by (simp add: fill_cols_def case_prod_beta)

lemma clean_spreadsheet_cells:
  assumes "fst (clean_spreadsheet s) = None" and "ws \<in> set (input_sheet_names s)"
  shows "\<exists>sheet sheet'.
           template_file s ws = Some sheet \<and>
           template_file (snd (clean_spreadsheet s)) ws = Some sheet' \<and>
           (\<forall>r c. sheet' (r, c) =
              (if 1 \<le> r \<and> r \<le> 50 \<and> 1 \<le> c \<and> c \<le> 50 then CNone else sheet (r, c)))"
proof -
  from assms(1) have "fst (clean_loop (input_sheet_names s) (template_file s)) = None"
    by (simp add: clean_spreadsheet_fst)
  from clean_loop_cleared [OF this assms(2)] obtain sheet where
    "template_file s ws = Some sheet"
    "snd (clean_loop (input_sheet_names s) (template_file s)) ws = Some (clear_window sheet)"
    by blast
  then show ?thesis
    by (simp add: clean_spreadsheet_snd clear_window_apply)
qed

lemma fill_loop_frame: "ws \<notin> set names \<Longrightarrow> snd (fill_loop names mdfs wb) ws = wb ws"
  by (induction names arbitrary: wb) (auto split: option.splits)

text \<open>
  Claim C10. \<^verbatim>\<open>clean_spreadsheet\<close> and \<^verbatim>\<open>fill_cols\<close> leave every sheet of the template
  that is not named in \<^verbatim>\<open>input_sheet_names\<close> as it was, also when they raise.
\<close>

theorem clean_and_fill_touch_tracked_sheets_only:
  assumes "ws \<notin> set (input_sheet_names s)"
  shows "template_file (snd (clean_spreadsheet s)) ws = template_file s ws \<and>
         template_file (snd (fill_cols merchant_dfs s)) ws = template_file s ws"
  using clean_loop_frame [OF assms, of "template_file s"]
    fill_loop_frame [OF assms, of merchant_dfs "template_file s"]
  by (simp add: clean_spreadsheet_snd fill_cols_snd)

theorem clean_and_fill_touch_tracked_sheets_only_witness:
  "template_file (snd (clean_spreadsheet (ex_splitter ex_data))) ''Pivot'' = Some ex_pivot \<and>
   template_file (snd (fill_cols [''GMS_AGG'' \<mapsto> ex_agg, ''GMS_SKU'' \<mapsto> ex_sku]
                         (ex_splitter ex_data))) ''Pivot'' = Some ex_pivot"
proof -
  have untracked: "''Pivot'' \<notin> set (input_sheet_names (ex_splitter ex_data))"
    by (simp add: ex_splitter_def SHEETS_INPUT_def)
  have before: "template_file (ex_splitter ex_data) ''Pivot'' = Some ex_pivot"
    by (simp add: ex_splitter_def ex_template_def)
  from clean_and_fill_touch_tracked_sheets_only
         [OF untracked, where merchant_dfs = "[''GMS_AGG'' \<mapsto> ex_agg, ''GMS_SKU'' \<mapsto> ex_sku]"]
       before
  show ?thesis by simp
qed

lemma ex_fill_ok:
  "fst (fill_cols [''GMS_AGG'' \<mapsto> ex_agg, ''GMS_SKU'' \<mapsto> ex_sku] (ex_splitter ex_data)) = None"
  by (simp add: fill_cols_def ex_splitter_def ex_template_def SHEETS_INPUT_def)

section \<open>Mail loop\<close>

lemma send_loop_fold:
  "n + length fs \<le> length emails \<Longrightarrow>
     send_loop ev (enumerate n fs) emails subj bdy w =
       (None,
        fold (send_email ev)
          (map (\<lambda>(idx, file). \<lparr>recipient = emails ! idx, subject = subj, body = bdy,
                                 attachment = abspath ev file\<rparr>) (enumerate n fs)) w)"
  by (induction fs arbitrary: n w) auto

lemma enumerate_messages:
  assumes "length fs = length emails"
  shows "map (\<lambda>(idx, file). \<lparr>recipient = emails ! idx, subject = subj, body = bdy,
                              attachment = abspath ev file\<rparr>) (enumerate 0 fs) =
         map (\<lambda>(file, addr). \<lparr>recipient = addr, subject = subj, body = bdy,
                               attachment = abspath ev file\<rparr>) (zip fs emails)"
  using assms by (auto simp: list_eq_iff_nth_eq nth_enumerate_eq)

lemma send_multiple_emails_fold:
  assumes "length fs = length emails"
  shows "send_multiple_emails ev fs emails subj bdy w =
           (None,
            fold (send_email ev)
              (map (\<lambda>(file, addr). \<lparr>recipient = addr, subject = subj, body = bdy,
                                    attachment = abspath ev file\<rparr>) (zip fs emails)) w)"
  using assms send_loop_fold [of 0 fs emails ev subj bdy w]
  by (simp add: send_multiple_emails_def enumerate_messages)

lemma attempts_send_email: "attempts (send_email ev m w) = attempts w @ [m]"
  by (simp add: send_email_def split: option.splits)

lemma attempts_fold_send: "attempts (fold (send_email ev) ms w) = attempts w @ ms"
  by (induction ms arbitrary: w) (auto simp: attempts_send_email)

lemma count_send_email:
  "length (sent (send_email ev m w)) + length (console (send_email ev m w)) =
     Suc (length (sent w) + length (console w))"
  by (simp add: send_email_def split: option.splits)

lemma count_fold_send:
  "length (sent (fold (send_email ev) ms w)) + length (console (fold (send_email ev) ms w)) =
     length (sent w) + length (console w) + length ms"
  by (induction ms arbitrary: w) (auto simp: count_send_email)

lemma send_email_keeps:
  "set (sent w) \<subseteq> set (sent (send_email ev m w))"
  "set (console w) \<subseteq> set (console (send_email ev m w))"
  by (auto simp: send_email_def split: option.splits)

lemma send_email_outcome:
  "(case outlook ev (attempts w) m of
      None \<Rightarrow> m \<in> set (sent (send_email ev m w))
    | Some e \<Rightarrow> Line (''Error ocurred while sending email: '' @ e)
                  \<in> set (console (send_email ev m w)))"
  by (simp add: send_email_def split: option.splits)

lemma outcome_fold_send:
  "i < length ms \<Longrightarrow>
     (case outlook ev (attempts w @ take i ms) (ms ! i) of
        None \<Rightarrow> ms ! i \<in> set (sent (fold (send_email ev) ms w))
      | Some e \<Rightarrow> Line (''Error ocurred while sending email: '' @ e)
                    \<in> set (console (fold (send_email ev) ms w)))"
proof (induction ms arbitrary: i rule: rev_induct)
  case Nil
  then show ?case by simp
next
  case (snoc m ms)
  let ?w = "fold (send_email ev) ms w"
  show ?case
  proof (cases "i < length ms")
    case True
    from snoc.IH [OF True] send_email_keeps [where ev = ev and w = ?w and m = m] True show ?thesis
      by (auto simp: nth_append split: option.splits)
  next
    case False
    with snoc.prems have i: "i = length ms" by simp
    from send_email_outcome [where ev = ev and w = ?w and m = m] show ?thesis
      by (auto simp: i attempts_fold_send split: option.splits)
  qed
qed

text \<open>
  Claim C6. With as many files as addresses, \<^verbatim>\<open>send_multiple_emails\<close> returns without
  an exception whatever the mail client does: every file is handed to the mail client
  exactly once, in order (a failure neither stops the loop nor is retried), a message
  the client accepts goes out, and a message on which it raises is reported on the
  console.
\<close>

theorem send_multiple_emails_continues:
  assumes "length fs = length emails"
  shows "(let msgs = map (\<lambda>(file, addr). \<lparr>recipient = addr, subject = subj, body = bdy,
                                            attachment = abspath ev file\<rparr>) (zip fs emails);
              w' = snd (send_multiple_emails ev fs emails subj bdy w)
          in fst (send_multiple_emails ev fs emails subj bdy w) = None \<and>
             attempts w' = attempts w @ msgs \<and>
             (\<forall>i < length msgs.
                case outlook ev (attempts w @ take i msgs) (msgs ! i) of
                  None \<Rightarrow> msgs ! i \<in> set (sent w')
                | Some e \<Rightarrow> Line (''Error ocurred while sending email: '' @ e) \<in> set (console w')) \<and>
             length (sent w') + length (console w') =
               length (sent w) + length (console w) + length fs)"
proof -
  define msgs where "msgs = map (\<lambda>(file, addr). \<lparr>recipient = addr, subject = subj, body = bdy,
                                            attachment = abspath ev file\<rparr>) (zip fs emails)"
  have run: "send_multiple_emails ev fs emails subj bdy w = (None, fold (send_email ev) msgs w)"
    unfolding msgs_def by (rule send_multiple_emails_fold [OF assms])
  have len: "length msgs = length fs"
    using assms by (simp add: msgs_def)
  have "\<forall>i < length msgs.
          case outlook ev (attempts w @ take i msgs) (msgs ! i) of
            None \<Rightarrow> msgs ! i \<in> set (sent (fold (send_email ev) msgs w))
          | Some e \<Rightarrow> Line (''Error ocurred while sending email: '' @ e)
                        \<in> set (console (fold (send_email ev) msgs w))"
    using outcome_fold_send by blast
  then show ?thesis
    unfolding Let_def msgs_def [symmetric] run snd_conv fst_conv
    by (simp add: attempts_fold_send count_fold_send len)
qed

theorem send_multiple_emails_continues_witness:
  "fst (send_multiple_emails ex_env [''a.xlsx'', ''b.xlsx'', ''c.xlsx'']
     [CStr ''beta@example.com'', CStr ''acme@example.com'', CStr ''beta@example.com'']
     (CStr ''Report'') (CStr ''Hello'') ex_world) = None \<and>
   attempts (snd (send_multiple_emails ex_env [''a.xlsx'', ''b.xlsx'', ''c.xlsx'']
     [CStr ''beta@example.com'', CStr ''acme@example.com'', CStr ''beta@example.com'']
     (CStr ''Report'') (CStr ''Hello'') ex_world)) =
       [\<lparr>recipient = CStr ''beta@example.com'', subject = CStr ''Report'',
         body = CStr ''Hello'', attachment = ''C:/run/a.xlsx''\<rparr>,
        \<lparr>recipient = CStr ''acme@example.com'', subject = CStr ''Report'',
         body = CStr ''Hello'', attachment = ''C:/run/b.xlsx''\<rparr>,
        \<lparr>recipient = CStr ''beta@example.com'', subject = CStr ''Report'',
         body = CStr ''Hello'', attachment = ''C:/run/c.xlsx''\<rparr>] \<and>
   length (sent (snd (send_multiple_emails ex_env [''a.xlsx'', ''b.xlsx'', ''c.xlsx'']
     [CStr ''beta@example.com'', CStr ''acme@example.com'', CStr ''beta@example.com'']
     (CStr ''Report'') (CStr ''Hello'') ex_world))) +
   length (console (snd (send_multiple_emails ex_env [''a.xlsx'', ''b.xlsx'', ''c.xlsx'']
     [CStr ''beta@example.com'', CStr ''acme@example.com'', CStr ''beta@example.com'']
     (CStr ''Report'') (CStr ''Hello'') ex_world))) = 3"
proof -
  have l: "length [''a.xlsx'', ''b.xlsx'', ''c.xlsx''] =
      length [CStr ''beta@example.com'', CStr ''acme@example.com'', CStr ''beta@example.com'']"
    by simp
  from send_multiple_emails_continues
    [OF l, where ev = ex_env and subj = "CStr ''Report''" and bdy = "CStr ''Hello''"
       and w = ex_world]
  show ?thesis
    by (simp add: Let_def ex_env_def ex_world_def)
qed

lemma ex_send_outcome:
  "send_multiple_emails ex_env [''a.xlsx'', ''b.xlsx'', ''c.xlsx'']
     [CStr ''beta@example.com'', CStr ''acme@example.com'', CStr ''beta@example.com'']
     (CStr ''Report'') (CStr ''Hello'') ex_world =
   (None,
    \<lparr>attempts =
       [\<lparr>recipient = CStr ''beta@example.com'', subject = CStr ''Report'',
         body = CStr ''Hello'', attachment = ''C:/run/a.xlsx''\<rparr>,
        \<lparr>recipient = CStr ''acme@example.com'', subject = CStr ''Report'',
         body = CStr ''Hello'', attachment = ''C:/run/b.xlsx''\<rparr>,
        \<lparr>recipient = CStr ''beta@example.com'', subject = CStr ''Report'',
         body = CStr ''Hello'', attachment = ''C:/run/c.xlsx''\<rparr>],
     sent =
       [\<lparr>recipient = CStr ''acme@example.com'', subject = CStr ''Report'',
         body = CStr ''Hello'', attachment = ''C:/run/b.xlsx''\<rparr>],
     console =
       [Line ''Error ocurred while sending email: rejected'',
        Line ''Error ocurred while sending email: rejected'']\<rparr>)"
  by (simp add: send_multiple_emails_def send_email_def ex_env_def ex_world_def)


section \<open>Export loop: the file system\<close>

lemma makedirs_insert: "makedirs s = s\<lparr>folders := insert (output_folder s) (folders s)\<rparr>"
  by (simp add: makedirs_def insert_absorb)

lemma get_save_path_snd:
  "snd (get_save_path mdfs s) =
     (case fst (get_save_path mdfs s) of Inl e \<Rightarrow> s | Inr p \<Rightarrow> makedirs s)"
  by (simp add: get_save_path_def split: option.splits sum.splits list.splits cell.splits)

lemma save_spreadsheet_cases:
  "save_spreadsheet mdfs s =
     (case fst (get_save_path mdfs s) of
        Inl e \<Rightarrow> (Some e, s)
      | Inr path \<Rightarrow>
          (None, s\<lparr>folders := insert (output_folder s) (folders s),
                   disk := (disk s)(path \<mapsto> template_file s),
                   files := files s @ [path]\<rparr>))"
proof -
  obtain r s1 where g: "get_save_path mdfs s = (r, s1)" by (cases "get_save_path mdfs s")
  with get_save_path_snd [of mdfs s] have s1: "s1 = (case r of Inl e \<Rightarrow> s | Inr p \<Rightarrow> makedirs s)"
    by simp
  show ?thesis
    using g s1 by (cases r) (simp_all add: save_spreadsheet_def Let_def makedirs_insert)
qed


lemma select_loop_cong:
  "dfs t = dfs s \<Longrightarrow> id_column t = id_column s \<Longrightarrow>
     select_loop names t m acc = select_loop names s m acc"
  by (induction names arbitrary: acc) (auto split: option.splits sum.splits)

lemma get_save_path_fst_cong:
  "filename_sheet t = filename_sheet s \<Longrightarrow> filename_col t = filename_col s \<Longrightarrow>
   output_folder t = output_folder s \<Longrightarrow>
     fst (get_save_path mdfs t) = fst (get_save_path mdfs s)"
  by (simp add: get_save_path_def split: option.splits sum.splits list.splits cell.splits)

lemma split_merchant_cases:
  "split_merchant m s =
     (case select_loop (input_sheet_names s) s m Map.empty of
        Inl e \<Rightarrow> (Some e, s)
      | Inr mdfs \<Rightarrow>
          (case clean_loop (input_sheet_names s) (template_file s) of
             (Some e, wb1) \<Rightarrow> (Some e, s\<lparr>template_file := wb1\<rparr>)
           | (None, wb1) \<Rightarrow>
               (case fill_loop (input_sheet_names s) mdfs wb1 of
                  (Some e, wb2) \<Rightarrow> (Some e, s\<lparr>template_file := wb2\<rparr>)
                | (None, wb2) \<Rightarrow>
                    (case fst (get_save_path mdfs s) of
                       Inl e \<Rightarrow> (Some e, s\<lparr>template_file := wb2\<rparr>)
                     | Inr path \<Rightarrow>
                         (None, s\<lparr>template_file := wb2,
                                  folders := insert (output_folder s) (folders s),
                                  disk := (disk s)(path \<mapsto> wb2),
                                  files := files s @ [path]\<rparr>)))))"
proof (cases "select_loop (input_sheet_names s) s m Map.empty")
  case (Inl e)
  then show ?thesis by (simp add: split_merchant_def)
next
  case (Inr mdfs)
  obtain e1 wb1 where c: "clean_loop (input_sheet_names s) (template_file s) = (e1, wb1)"
    by (cases "clean_loop (input_sheet_names s) (template_file s)")
  show ?thesis
  proof (cases e1)
    case (Some e)
    with Inr c show ?thesis by (simp add: split_merchant_def clean_spreadsheet_def)
  next
    case None
    obtain e2 wb2 where f: "fill_loop (input_sheet_names s) mdfs wb1 = (e2, wb2)"
      by (cases "fill_loop (input_sheet_names s) mdfs wb1")
    show ?thesis
    proof (cases e2)
      case (Some e)
      with Inr c None f show ?thesis
        by (simp add: split_merchant_def clean_spreadsheet_def fill_cols_def)
    next
      case n2: None
      have g: "fst (get_save_path mdfs (s\<lparr>template_file := wb2\<rparr>)) = fst (get_save_path mdfs s)"
        by (rule get_save_path_fst_cong) simp_all
      from Inr c None f n2 show ?thesis
        by (simp add: split_merchant_def clean_spreadsheet_def fill_cols_def
              save_spreadsheet_cases g split: sum.splits)
    qed
  qed
qed


lemma split_merchant_fs:
  "split_merchant m s =
     (let r = split_merchant m (s\<lparr>disk := Map.empty, folders := {}\<rparr>)
      in (fst r, (snd r)\<lparr>disk := disk s ++ disk (snd r),
                           folders := folders s \<union> folders (snd r)\<rparr>))"
proof -
  let ?c = "s\<lparr>disk := Map.empty, folders := {}\<rparr>"
  have 1: "select_loop (input_sheet_names s) ?c m Map.empty =
           select_loop (input_sheet_names s) s m Map.empty"
    by (rule select_loop_cong) simp_all
  have 2: "\<And>mdfs. fst (get_save_path mdfs ?c) = fst (get_save_path mdfs s)"
    by (rule get_save_path_fst_cong) simp_all
  show ?thesis
    unfolding split_merchant_cases Let_def
    by (simp add: 1 2 split: sum.splits prod.splits option.splits)
qed

lemma map_add_twice: "(m ++ n) ++ n = m ++ n"
  by (rule ext) (simp add: map_add_def split: option.splits)

lemma split_loop_fs:
  "split_loop ms s =
     (let r = split_loop ms (s\<lparr>disk := Map.empty, folders := {}\<rparr>)
      in (fst r, (snd r)\<lparr>disk := disk s ++ disk (snd r),
                           folders := folders s \<union> folders (snd r)\<rparr>))"
proof (induction ms arbitrary: s)
  case Nil
  show ?case by simp
next
  case (Cons m ms)
  let ?c = "s\<lparr>disk := Map.empty, folders := {}\<rparr>"
  obtain e1 c1 where c1: "split_merchant m ?c = (e1, c1)" by (cases "split_merchant m ?c")
  let ?s1 = "c1\<lparr>disk := disk s ++ disk c1, folders := folders s \<union> folders c1\<rparr>"
  from split_merchant_fs [of m s] c1 have s1: "split_merchant m s = (e1, ?s1)"
    by (simp add: Let_def)
  show ?case
  proof (cases e1)
    case (Some e)
    with c1 s1 show ?thesis by (simp add: Let_def)
  next
    case None
    let ?k = "c1\<lparr>disk := Map.empty, folders := {}\<rparr>"
    obtain e2 c2 where c2: "split_loop ms ?k = (e2, c2)" by (cases "split_loop ms ?k")
    have k: "?s1\<lparr>disk := Map.empty, folders := {}\<rparr> = ?k" by simp
    from Cons.IH [of ?s1] c2 have a: "split_loop ms ?s1 =
        (e2, c2\<lparr>disk := (disk s ++ disk c1) ++ disk c2,
                 folders := (folders s \<union> folders c1) \<union> folders c2\<rparr>)"
      by (simp add: Let_def k)
    from Cons.IH [of c1] c2 have b: "split_loop ms c1 =
        (e2, c2\<lparr>disk := disk c1 ++ disk c2, folders := folders c1 \<union> folders c2\<rparr>)"
      by (simp add: Let_def)
    from None c1 s1 a b show ?thesis
      by (simp add: Let_def Un_assoc)
  qed
qed

lemma split_sellers_fs:
  "split_sellers s =
     (let r = split_sellers (s\<lparr>disk := Map.empty, folders := {}\<rparr>)
      in (fst r, (snd r)\<lparr>disk := disk s ++ disk (snd r),
                           folders := folders s \<union> folders (snd r)\<rparr>))"
proof (cases "df_col (contacts s) (CStr (id_column s))")
  case (Inl e)
  then show ?thesis by (simp add: split_sellers_def)
next
  case (Inr ids)
  show ?thesis
  proof (cases "map_int ids")
    case (Inl e)
    with Inr show ?thesis by (simp add: split_sellers_def)
  next
    case r: (Inr merchant_list)
    with Inr split_loop_fs [of merchant_list s] show ?thesis
      by (simp add: split_sellers_def)
  qed
qed


lemma get_save_path_Inr:
  "fst (get_save_path mdfs s) = Inr p \<Longrightarrow> \<exists>n. p = save_path (output_folder s) n"
  by (auto simp: get_save_path_def split: option.splits sum.splits list.splits cell.splits)

lemma split_merchant_output_folder:
  "output_folder (snd (split_merchant m s)) = output_folder s"
  by (simp add: split_merchant_cases split: sum.splits prod.splits option.splits)

lemma split_merchant_disk_dom:
  "dom (disk (snd (split_merchant m s))) \<subseteq>
     dom (disk s) \<union> range (save_path (output_folder s))"
  by (auto simp: split_merchant_cases dest!: get_save_path_Inr
        split: sum.splits prod.splits option.splits if_splits)

lemma split_loop_disk_dom:
  "dom (disk (snd (split_loop ms s))) \<subseteq>
     dom (disk s) \<union> range (save_path (output_folder s))"
proof (induction ms arbitrary: s)
  case Nil
  show ?case by simp
next
  case (Cons m ms)
  obtain e1 s1 where s1: "split_merchant m s = (e1, s1)" by (cases "split_merchant m s")
  from split_merchant_disk_dom [of m s] split_merchant_output_folder [of m s] s1
  have d1: "dom (disk s1) \<subseteq> dom (disk s) \<union> range (save_path (output_folder s))"
    and o1: "output_folder s1 = output_folder s" by simp_all
  show ?case
  proof (cases e1)
    case (Some e)
    with s1 d1 show ?thesis by simp
  next
    case None
    from Cons.IH [of s1] o1 d1 None s1 show ?thesis by auto
  qed
qed

lemma split_sellers_disk_dom:
  "dom (disk (snd (split_sellers s))) \<subseteq>
     dom (disk s) \<union> range (save_path (output_folder s))"
  using split_loop_disk_dom [of _ s]
  by (auto simp: split_sellers_def split: sum.splits)

lemma template_is_no_output: "FILE_TEMPLATE \<notin> range (save_path OUTPUT_FOLDER)"
  by (auto simp: FILE_TEMPLATE_def OUTPUT_FOLDER_def save_path_def)

text \<open>
  Claim C7. A second export on the file system the first one left, with the same input
  data, ends the same way with the same list of files and the same file system: every
  output file is written again at its path with the content it had (the template file
  is never among the outputs, so it is the same template).
\<close>

theorem export_twice_same_files:
  assumes "export data dsk dirs = (e, Some s1)"
  shows "export data (disk s1) (folders s1) = (e, Some s1)"
proof -
  from assms obtain s0 where
    i: "init FILE_TEMPLATE data SHEETS_INPUT OUTPUT_FOLDER COLUMN_ID
          SHEETS_FILENAME_sheet SHEETS_FILENAME_col dsk dirs = Inr s0"
    and r: "split_sellers s0 = (e, s1)"
    by (auto simp: export_def split: sum.splits prod.splits)
  from i obtain wb c where wb: "dsk FILE_TEMPLATE = Some wb" and c: "get_contacts data = Inr c"
    and s0: "s0 = \<lparr>template_file = wb, input_sheet_names = SHEETS_INPUT,
                    output_folder = OUTPUT_FOLDER, dfs = data, files = [],
                    id_column = COLUMN_ID, filename_sheet = SHEETS_FILENAME_sheet,
                    filename_col = SHEETS_FILENAME_col,
                    contacts = c, disk = dsk, folders = dirs\<rparr>"
    by (auto simp: init_def split: option.splits sum.splits)
  let ?c0 = "s0\<lparr>disk := Map.empty, folders := {}\<rparr>"
  obtain k where k: "split_sellers ?c0 = (e, k)"
    and s1: "s1 = k\<lparr>disk := dsk ++ disk k, folders := dirs \<union> folders k\<rparr>"
    using split_sellers_fs [of s0] r s0 by (cases "split_sellers ?c0") (auto simp: Let_def)
  from split_sellers_disk_dom [of ?c0] k s0
  have "dom (disk k) \<subseteq> range (save_path OUTPUT_FOLDER)" by simp
  with template_is_no_output have "disk k FILE_TEMPLATE = None" by blast
  with wb s1 have t: "disk s1 FILE_TEMPLATE = Some wb" by (simp add: map_add_def)
  let ?s0' = "s0\<lparr>disk := disk s1, folders := folders s1\<rparr>"
  from t c s0 have i': "init FILE_TEMPLATE data SHEETS_INPUT OUTPUT_FOLDER COLUMN_ID
          SHEETS_FILENAME_sheet SHEETS_FILENAME_col (disk s1) (folders s1) = Inr ?s0'"
    by (simp add: init_def)
  have "?s0'\<lparr>disk := Map.empty, folders := {}\<rparr> = ?c0" by simp
  with split_sellers_fs [of ?s0'] k
  have "split_sellers ?s0' =
          (e, k\<lparr>disk := disk s1 ++ disk k, folders := folders s1 \<union> folders k\<rparr>)"
    by (simp add: Let_def)
  also have "k\<lparr>disk := disk s1 ++ disk k, folders := folders s1 \<union> folders k\<rparr> = s1"
    by (simp add: s1 map_add_twice Un_assoc)
  finally show ?thesis using i' by (simp add: export_def)
qed

section \<open>Export loop: one file per merchant\<close>















lemmas ex_config =
  ex_splitter_def ex_data_def ex_contacts_sheet_def ex_agg_def ex_sku_def ex_template_def
  SHEETS_INPUT_def OUTPUT_FOLDER_def COLUMN_ID_def SHEETS_FILENAME_sheet_def
  SHEETS_FILENAME_col_def







lemmas run_defs =
  split_sellers_def df_col_def row_value_def py_int_def split_merchant_def filter_merchant_def
  clean_spreadsheet_def fill_cols_def save_spreadsheet_def get_save_path_def makedirs_def
  save_path_def Let_def clean_seller_name_def replace_space_def is_alnum_def



section \<open>Running the export twice on the example\<close>

lemma ex_init:
  "init FILE_TEMPLATE ex_data SHEETS_INPUT OUTPUT_FOLDER COLUMN_ID
     SHEETS_FILENAME_sheet SHEETS_FILENAME_col ex_disk {} = Inr (ex_splitter ex_data)"
  by (simp add: init_def get_contacts_def ex_disk_def FILE_TEMPLATE_def CONTACTS_SHEET_def
        ex_config)

lemma ex_export:
  "export ex_data ex_disk {} =
     (fst (split_sellers (ex_splitter ex_data)), Some (snd (split_sellers (ex_splitter ex_data))))"
  by (simp add: export_def ex_init case_prod_beta)

lemma ex_run:
  "fst (split_sellers (ex_splitter ex_data)) = None"
  "files (snd (split_sellers (ex_splitter ex_data))) =
     [''output/relatorio-AcmeCo.xlsx'', ''output/relatorio-Beta.xlsx'']"
  by (simp_all add: run_defs ex_config)

theorem export_twice_same_files_witness:
  "export ex_data ex_disk {} = (None, Some (snd (split_sellers (ex_splitter ex_data)))) \<and>
   files (snd (split_sellers (ex_splitter ex_data))) =
     [''output/relatorio-AcmeCo.xlsx'', ''output/relatorio-Beta.xlsx''] \<and>
   export ex_data (disk (snd (split_sellers (ex_splitter ex_data))))
     (folders (snd (split_sellers (ex_splitter ex_data)))) =
     (None, Some (snd (split_sellers (ex_splitter ex_data))))"
proof -
  have first: "export ex_data ex_disk {} = (None, Some (snd (split_sellers (ex_splitter ex_data))))"
    by (simp add: ex_export ex_run)
  from export_twice_same_files [OF first] first ex_run(2) show ?thesis by simp
qed


section \<open>Stale content across the iterations\<close>

lemma write_cell_other: "(r', c') \<noteq> (r, c) \<Longrightarrow> write_cell r c v w (r', c') = w (r', c')"
  by (auto simp: write_cell_def)

lemma fold_write_row_other:
  "r' \<noteq> r \<or> (\<forall>(n, x) \<in> set ps. n + 1 \<noteq> c') \<Longrightarrow>
     fold (\<lambda>(ncol, col). write_cell r (ncol + 1) (g ncol col)) ps w (r', c') = w (r', c')"
  by (induction ps arbitrary: w) (auto simp: write_cell_other)

lemma enumerate_bound: "(n, x) \<in> set (enumerate 0 xs) \<Longrightarrow> n < length xs"
  by (auto simp: in_set_enumerate_eq)

lemma fill_header_other:
  "r \<noteq> 1 \<or> length cols < c \<Longrightarrow> fill_header cols w (r, c) = w (r, c)"
  unfolding fill_header_def
  by (rule fold_write_row_other [where g = "\<lambda>n col. col"]) (auto dest: enumerate_bound)

lemma fill_row_other:
  "r \<noteq> index + 2 \<or> length cols < c \<Longrightarrow> fill_row cols (index, row) w (r, c) = w (r, c)"
  unfolding fill_row_def prod.case
  by (rule fold_write_row_other [where g = "\<lambda>n col. row_get cols row col"])
     (auto dest: enumerate_bound)

lemma fold_fill_rows_other:
  "(\<forall>(index, row) \<in> set ps. r \<noteq> index + 2) \<or> length cols < c \<Longrightarrow>
     fold (fill_row cols) ps w (r, c) = w (r, c)"
  by (induction ps arbitrary: w) (auto simp: fill_row_other)

lemma fill_sheet_other:
  assumes "length (rows df) + 1 < r \<or> length (columns df) < c"
  shows "fill_sheet df w (r, c) = w (r, c)"
proof -
  from assms have "(\<forall>(index, row) \<in> set (enumerate 0 (rows df)). r \<noteq> index + 2) \<or>
      length (columns df) < c"
    by (auto dest: enumerate_bound)
  from fold_fill_rows_other [OF this] assms show ?thesis
    by (auto simp: fill_sheet_def fill_header_other)
qed


lemma clean_loop_outside:
  "50 < r \<or> 50 < c \<Longrightarrow>
     map_option (\<lambda>sh. sh (r, c)) (snd (clean_loop names wb) ws) =
       map_option (\<lambda>sh. sh (r, c)) (wb ws)"
proof (induction names arbitrary: wb)
  case Nil
  show ?case by simp
next
  case (Cons a names)
  show ?case
  proof (cases "wb a")
    case None
    then show ?thesis by simp
  next
    case (Some sh)
    let ?wb = "wb(a \<mapsto> clear_window sh)"
    have step: "clean_loop (a # names) wb = clean_loop names ?wb" using Some by simp
    have ih: "map_option (\<lambda>sh. sh (r, c)) (snd (clean_loop names ?wb) ws) =
        map_option (\<lambda>sh. sh (r, c)) (?wb ws)"
      by (rule Cons.IH [OF Cons.prems])
    have "map_option (\<lambda>sh. sh (r, c)) (?wb ws) = map_option (\<lambda>sh. sh (r, c)) (wb ws)"
      using Some Cons.prems by (cases "ws = a") (auto simp: clear_window_apply)
    with ih show ?thesis by (simp only: step)
  qed
qed

lemma fill_loop_outside:
  assumes "\<forall>df. mdfs ws = Some df \<longrightarrow> length (rows df) + 1 < r \<or> length (columns df) < c"
  shows "map_option (\<lambda>sh. sh (r, c)) (snd (fill_loop names mdfs wb) ws) =
           map_option (\<lambda>sh. sh (r, c)) (wb ws)"
proof (induction names arbitrary: wb)
  case Nil
  show ?case by simp
next
  case (Cons a names)
  show ?case
  proof (cases "wb a")
    case None
    then show ?thesis by simp
  next
    case (Some sh)
    show ?thesis
    proof (cases "mdfs a")
      case None
      with Some show ?thesis by simp
    next
      case df: (Some df)
      let ?wb = "wb(a \<mapsto> fill_sheet df sh)"
      have step: "fill_loop (a # names) mdfs wb = fill_loop names mdfs ?wb"
        using Some df by simp
      have ih: "map_option (\<lambda>sh. sh (r, c)) (snd (fill_loop names mdfs ?wb) ws) =
          map_option (\<lambda>sh. sh (r, c)) (?wb ws)"
        by (rule Cons.IH)
      have "map_option (\<lambda>sh. sh (r, c)) (?wb ws) = map_option (\<lambda>sh. sh (r, c)) (wb ws)"
        using Some df assms by (cases "ws = a") (auto simp: fill_sheet_other)
      with ih show ?thesis by (simp only: step)
    qed
  qed
qed

lemma select_loop_values:
  "select_loop names s m acc = Inr mdfs \<Longrightarrow> mdfs ws = Some d \<Longrightarrow>
     acc ws = Some d \<or>
     (\<exists>df. dfs s ws = Some df \<and> filter_merchant (id_column s) m df = Inr d)"
proof (induction names arbitrary: acc)
  case Nil
  then show ?case by simp
next
  case (Cons a names)
  from Cons.prems(1) obtain df d' where df: "dfs s a = Some df"
    and d': "filter_merchant (id_column s) m df = Inr d'"
    and rest: "select_loop names s m (acc(a \<mapsto> d')) = Inr mdfs"
    by (auto split: option.splits sum.splits)
  from Cons.IH [OF rest Cons.prems(2)] df d' show ?case
    by (auto split: if_splits)
qed

lemma split_merchant_keeps_outside:
  assumes out: "50 < r \<or> 50 < c"
    and area: "\<forall>df d. dfs s ws = Some df \<longrightarrow> filter_merchant (id_column s) m df = Inr d \<longrightarrow>
                 length (rows d) + 1 < r \<or> length (columns d) < c"
  shows "map_option (\<lambda>sh. sh (r, c)) (template_file (snd (split_merchant m s)) ws) =
           map_option (\<lambda>sh. sh (r, c)) (template_file s ws)"
proof (cases "select_loop (input_sheet_names s) s m Map.empty")
  case (Inl e)
  then show ?thesis by (simp add: split_merchant_cases)
next
  case (Inr mdfs)
  let ?names = "input_sheet_names s"
  have a: "\<forall>df. mdfs ws = Some df \<longrightarrow> length (rows df) + 1 < r \<or> length (columns df) < c"
    using select_loop_values [OF Inr, of ws] area by auto
  obtain e1 wb1 where c1: "clean_loop ?names (template_file s) = (e1, wb1)"
    by (cases "clean_loop ?names (template_file s)")
  obtain e2 wb2 where f2: "fill_loop ?names mdfs wb1 = (e2, wb2)"
    by (cases "fill_loop ?names mdfs wb1")
  from clean_loop_outside [OF out, of ?names "template_file s" ws] c1
  have k1: "map_option (\<lambda>sh. sh (r, c)) (wb1 ws) = map_option (\<lambda>sh. sh (r, c)) (template_file s ws)"
    by simp
  from fill_loop_outside [where mdfs = mdfs and ws = ws and r = r and c = c, OF a, of ?names wb1] f2
  have k2: "map_option (\<lambda>sh. sh (r, c)) (wb2 ws) = map_option (\<lambda>sh. sh (r, c)) (wb1 ws)"
    by simp
  from Inr c1 f2 k1 k2 show ?thesis
    by (simp add: split_merchant_cases split: option.splits sum.splits)
qed

lemma split_merchant_tables:
  "dfs (snd (split_merchant m s)) = dfs s" "id_column (snd (split_merchant m s)) = id_column s"
  by (simp_all add: split_merchant_cases split: sum.splits prod.splits option.splits)

lemma split_loop_keeps_outside:
  assumes out: "50 < r \<or> 50 < c"
  shows "\<forall>m df d. dfs s ws = Some df \<longrightarrow> filter_merchant (id_column s) m df = Inr d \<longrightarrow>
           length (rows d) + 1 < r \<or> length (columns d) < c \<Longrightarrow>
         map_option (\<lambda>sh. sh (r, c)) (template_file (snd (split_loop ms s)) ws) =
           map_option (\<lambda>sh. sh (r, c)) (template_file s ws)"
proof (induction ms arbitrary: s)
  case Nil
  show ?case by simp
next
  case (Cons m ms)
  obtain e1 s1 where s1: "split_merchant m s = (e1, s1)" by (cases "split_merchant m s")
  from Cons.prems have "\<forall>df d. dfs s ws = Some df \<longrightarrow> filter_merchant (id_column s) m df = Inr d \<longrightarrow>
      length (rows d) + 1 < r \<or> length (columns d) < c" by blast
  from split_merchant_keeps_outside [OF out this] s1
  have k: "map_option (\<lambda>sh. sh (r, c)) (template_file s1 ws) =
      map_option (\<lambda>sh. sh (r, c)) (template_file s ws)" by simp
  from split_merchant_tables [of m s] s1
  have t: "dfs s1 = dfs s" "id_column s1 = id_column s" by simp_all
  show ?case
  proof (cases e1)
    case (Some e)
    with s1 k show ?thesis by simp
  next
    case None
    from Cons.prems t have "\<forall>m df d. dfs s1 ws = Some df \<longrightarrow>
        filter_merchant (id_column s1) m df = Inr d \<longrightarrow>
        length (rows d) + 1 < r \<or> length (columns d) < c" by simp
    from Cons.IH [OF this] k None s1 show ?thesis by simp
  qed
qed

lemma split_sellers_keeps_outside:
  assumes "template_file s ws = Some sheet"
    and "50 < r \<or> 50 < c"
    and "\<forall>m df d. dfs s ws = Some df \<longrightarrow> filter_merchant (id_column s) m df = Inr d \<longrightarrow>
           length (rows d) + 1 < r \<or> length (columns d) < c"
  shows "\<exists>sheet'. template_file (snd (split_sellers s)) ws = Some sheet' \<and>
           sheet' (r, c) = sheet (r, c)"
proof -
  have "map_option (\<lambda>sh. sh (r, c)) (template_file (snd (split_sellers s)) ws) =
          map_option (\<lambda>sh. sh (r, c)) (template_file s ws)"
    using split_loop_keeps_outside [OF assms(2,3)]
    by (simp add: split_sellers_def split: sum.splits)
  with assms(1) show ?thesis by auto
qed

lemma filter_merchant_size:
  "filter_merchant idc m df = Inr d \<Longrightarrow>
     length (rows d) \<le> length (rows df) \<and> columns d = columns df"
  by (auto simp: filter_merchant_def split: option.splits)

text \<open>
  Claim C3. After a \<^verbatim>\<open>clean_spreadsheet\<close> that returns, every tracked input sheet holds
  \<^verbatim>\<open>None\<close> in exactly the cells of rows 1 to 50 and columns 1 to 50, and every other
  cell of the sheet has the value it had before. So stale content persists across the
  merchant iterations: a cell outside the window, and outside the header and the rows
  that any merchant's table fills, has after \<^verbatim>\<open>split_sellers\<close> the value it had in the
  template.
\<close>

theorem clean_spreadsheet_window:
  assumes "fst (clean_spreadsheet s) = None" and "ws \<in> set (input_sheet_names s)"
  shows "\<exists>sheet sheet'.
           template_file s ws = Some sheet \<and>
           template_file (snd (clean_spreadsheet s)) ws = Some sheet' \<and>
           (\<forall>r c. sheet' (r, c) =
              (if 1 \<le> r \<and> r \<le> 50 \<and> 1 \<le> c \<and> c \<le> 50 then CNone else sheet (r, c))) \<and>
           (\<forall>r c. (50 < r \<or> 50 < c) \<and>
                  (\<forall>m df d. dfs s ws = Some df \<longrightarrow>
                     filter_merchant (id_column s) m df = Inr d \<longrightarrow>
                     length (rows d) + 1 < r \<or> length (columns d) < c) \<longrightarrow>
                  (\<exists>kept. template_file (snd (split_sellers s)) ws = Some kept \<and>
                          kept (r, c) = sheet (r, c)))"
proof -
  from clean_spreadsheet_cells [OF assms] obtain sheet sheet' where
    before: "template_file s ws = Some sheet"
    and after: "template_file (snd (clean_spreadsheet s)) ws = Some sheet'"
    and cells: "\<forall>r c. sheet' (r, c) =
              (if 1 \<le> r \<and> r \<le> 50 \<and> 1 \<le> c \<and> c \<le> 50 then CNone else sheet (r, c))"
    by blast
  have "\<forall>r c. (50 < r \<or> 50 < c) \<and>
                  (\<forall>m df d. dfs s ws = Some df \<longrightarrow>
                     filter_merchant (id_column s) m df = Inr d \<longrightarrow>
                     length (rows d) + 1 < r \<or> length (columns d) < c) \<longrightarrow>
                  (\<exists>kept. template_file (snd (split_sellers s)) ws = Some kept \<and>
                          kept (r, c) = sheet (r, c))"
    using split_sellers_keeps_outside [OF before] by blast
  with before after cells show ?thesis by blast
qed

theorem clean_spreadsheet_window_witness:
  "fst (clean_spreadsheet (ex_splitter ex_data)) = None \<and>
   (\<exists>sheet'. template_file (snd (clean_spreadsheet (ex_splitter ex_data))) ''GMS_AGG'' = Some sheet' \<and>
              sheet' (1, 1) = CNone \<and> sheet' (50, 50) = CNone \<and>
              sheet' (60, 1) = CStr ''stale'' \<and> sheet' (51, 1) = ex_sheet (51, 1)) \<and>
   (\<exists>kept. template_file (snd (split_sellers (ex_splitter ex_data))) ''GMS_AGG'' = Some kept \<and>
            kept (60, 1) = CStr ''stale'')"
proof -
  have ok: "fst (clean_spreadsheet (ex_splitter ex_data)) = None"
    by (simp add: clean_spreadsheet_def ex_splitter_def ex_template_def SHEETS_INPUT_def)
  have tracked: "''GMS_AGG'' \<in> set (input_sheet_names (ex_splitter ex_data))"
    by (simp add: ex_splitter_def SHEETS_INPUT_def)
  have before: "template_file (ex_splitter ex_data) ''GMS_AGG'' = Some ex_sheet"
    by (simp add: ex_splitter_def ex_template_def)
  have area: "\<forall>m df d. dfs (ex_splitter ex_data) ''GMS_AGG'' = Some df \<longrightarrow>
           filter_merchant (id_column (ex_splitter ex_data)) m df = Inr d \<longrightarrow>
           length (rows d) + 1 < 60 \<or> length (columns d) < 1"
  proof (intro allI impI)
    fix m df d
    assume "dfs (ex_splitter ex_data) ''GMS_AGG'' = Some df"
      and f: "filter_merchant (id_column (ex_splitter ex_data)) m df = Inr d"
    then have "df = ex_agg" by (simp add: ex_splitter_def ex_data_def)
    with filter_merchant_size [OF f] have "length (rows d) \<le> 2" by (simp add: ex_agg_def)
    then show "length (rows d) + 1 < 60 \<or> length (columns d) < 1" by simp
  qed
  from clean_spreadsheet_window [OF ok tracked] before obtain sheet' where
    after: "template_file (snd (clean_spreadsheet (ex_splitter ex_data))) ''GMS_AGG'' = Some sheet'"
    and cells: "\<forall>r c. sheet' (r, c) =
           (if 1 \<le> r \<and> r \<le> 50 \<and> 1 \<le> c \<and> c \<le> 50 then CNone else ex_sheet (r, c))"
    and stale: "\<forall>r c. (50 < r \<or> 50 < c) \<and>
                  (\<forall>m df d. dfs (ex_splitter ex_data) ''GMS_AGG'' = Some df \<longrightarrow>
                     filter_merchant (id_column (ex_splitter ex_data)) m df = Inr d \<longrightarrow>
                     length (rows d) + 1 < r \<or> length (columns d) < c) \<longrightarrow>
                  (\<exists>kept. template_file (snd (split_sellers (ex_splitter ex_data))) ''GMS_AGG'' =
                            Some kept \<and> kept (r, c) = ex_sheet (r, c))"
    by auto
  from cells have c: "sheet' (1, 1) = CNone" "sheet' (50, 50) = CNone"
    "sheet' (60, 1) = CStr ''stale''" "sheet' (51, 1) = ex_sheet (51, 1)"
    by (simp_all add: ex_sheet_def)
  from stale [rule_format, of 60 1] area
  obtain kept where "template_file (snd (split_sellers (ex_splitter ex_data))) ''GMS_AGG'' = Some kept"
    and "kept (60, 1) = ex_sheet (60, 1)" by auto
  then have "\<exists>kept. template_file (snd (split_sellers (ex_splitter ex_data))) ''GMS_AGG'' = Some kept \<and>
            kept (60, 1) = CStr ''stale''"
    by (simp add: ex_sheet_def)
  with ok after c show ?thesis by blast
qed

end
